theory Spec2Isabelle
  imports Complex_Main
begin

section \<open>Values, errors and Python primitives\<close>

text \<open>
  The notebook \<^verbatim>\<open>flight-delay.ipynb\<close> works on a pandas DataFrame. A cell of the
  table is a missing value (NaN, None, NaT), a number, a string, a boolean or a calendar
  date. Numbers are modelled as reals: the arithmetic of the model is exact.
\<close>

datatype cell = Null | Num real | Str string | Flag bool | Date int int int

datatype error = KeyError string | ValueError | TypeError

subsection \<open>\<^verbatim>\<open>str(n)\<close> for an integer\<close>

definition digit_char :: "nat \<Rightarrow> char" where
  "digit_char d = ''0123456789'' ! d"

function str_nat :: "nat \<Rightarrow> string" where
  "str_nat n = (if n < 10 then [digit_char n] else str_nat (n div 10) @ [digit_char (n mod 10)])"
  by pat_completeness auto
termination
  by (relation "measure (\<lambda>n. n)") auto

declare str_nat.simps [simp del]

definition str_int :: "int \<Rightarrow> string" where
  "str_int i = (if i < 0 then CHR ''-'' # str_nat (nat (- i)) else str_nat (nat i))"

subsection \<open>\<^verbatim>\<open>s.zfill(width)\<close>\<close>

text \<open>
  Python pads with zeros on the left up to the width; a leading sign stays in front of
  the padding. A string that is already wide enough is returned as it is.
\<close>

definition zfill :: "nat \<Rightarrow> string \<Rightarrow> string" where
  "zfill w s =
     (if w \<le> length s then s
      else (case s of
              [] \<Rightarrow> replicate w (CHR ''0'')
            | c # r \<Rightarrow>
                if c = CHR ''+'' \<or> c = CHR ''-''
                then c # replicate (w - length s) (CHR ''0'') @ r
                else replicate (w - length s) (CHR ''0'') @ s))"

subsection \<open>\<^verbatim>\<open>int(s)\<close> for a string\<close>

text \<open>
  Python strips surrounding whitespace, reads an optional sign and then decimal digits,
  where single underscores may stand between digits. Anything else raises ValueError.
  Only ASCII digits and ASCII whitespace are modelled.
\<close>

definition digit_val :: "char \<Rightarrow> nat option" where
  "digit_val = map_of
     [(CHR ''0'', 0), (CHR ''1'', 1), (CHR ''2'', 2), (CHR ''3'', 3), (CHR ''4'', 4),
      (CHR ''5'', 5), (CHR ''6'', 6), (CHR ''7'', 7), (CHR ''8'', 8), (CHR ''9'', 9)]"

definition is_space :: "char \<Rightarrow> bool" where
  "is_space c \<longleftrightarrow>
     c \<in> set [CHR '' '', CHR 0x09, CHR 0x0A, CHR 0x0B, CHR 0x0C, CHR 0x0D,
                CHR 0x1C, CHR 0x1D, CHR 0x1E, CHR 0x1F]"

definition strip :: "string \<Rightarrow> string" where
  "strip s = rev (dropWhile is_space (rev (dropWhile is_space s)))"

fun more_digits :: "nat \<Rightarrow> string \<Rightarrow> nat option" where
  "more_digits acc [] = Some acc"
| "more_digits acc [c] =
     (case digit_val c of None \<Rightarrow> None | Some v \<Rightarrow> Some (10 * acc + v))"
| "more_digits acc (c # d # ds) =
     (if c = CHR ''_''
      then (case digit_val d of None \<Rightarrow> None | Some v \<Rightarrow> more_digits (10 * acc + v) ds)
      else (case digit_val c of None \<Rightarrow> None | Some v \<Rightarrow> more_digits (10 * acc + v) (d # ds)))"

definition digits_value :: "string \<Rightarrow> nat option" where
  "digits_value s =
     (case s of
        [] \<Rightarrow> None
      | c # cs \<Rightarrow> (case digit_val c of None \<Rightarrow> None | Some v \<Rightarrow> more_digits v cs))"

definition int_of_str :: "string \<Rightarrow> error + int" where
  "int_of_str s =
     (case strip s of
        [] \<Rightarrow> Inl ValueError
      | c # cs \<Rightarrow>
          if c = CHR ''-''
          then (case digits_value cs of None \<Rightarrow> Inl ValueError | Some n \<Rightarrow> Inr (- int n))
          else if c = CHR ''+''
          then (case digits_value cs of None \<Rightarrow> Inl ValueError | Some n \<Rightarrow> Inr (int n))
          else (case digits_value (c # cs) of None \<Rightarrow> Inl ValueError | Some n \<Rightarrow> Inr (int n)))"

subsection \<open>\<^verbatim>\<open>int(x)\<close> for a cell\<close>

text \<open>
  A number is truncated towards zero, NaN raises ValueError, a string is parsed, a
  boolean is 0 or 1, and a timestamp has no integer value.
\<close>

definition truncate :: "real \<Rightarrow> int" where
  "truncate r = (if 0 \<le> r then \<lfloor>r\<rfloor> else \<lceil>r\<rceil>)"

fun py_int :: "cell \<Rightarrow> error + int" where
  "py_int Null = Inl ValueError"
| "py_int (Num r) = Inr (truncate r)"
| "py_int (Str s) = int_of_str s"
| "py_int (Flag b) = Inr (if b then 1 else 0)"
| "py_int (Date y m d) = Inl TypeError"

section \<open>Feature helpers\<close>

text \<open>
  \<^verbatim>\<open>def sched_hour(x): x = str(int(x)).zfill(4); return int(x[:2])\<close>
\<close>

definition sched_hour :: "cell \<Rightarrow> error + int" where
  "sched_hour x =
     (case py_int x of
        Inl e \<Rightarrow> Inl e
      | Inr n \<Rightarrow> int_of_str (take 2 (zfill 4 (str_int n))))"

text \<open>
  \<^verbatim>\<open>delay_type = lambda x:((0,1)[x > 5],2)[x > 45]\<close>. Both comparisons are
  evaluated, the inner one first. A comparison with NaN is false; a boolean compares as
  0 or 1; a string or a timestamp cannot be compared with a number.
\<close>

fun py_gt :: "cell \<Rightarrow> real \<Rightarrow> error + bool" where
  "py_gt Null k = Inr False"
| "py_gt (Num r) k = Inr (r > k)"
| "py_gt (Flag b) k = Inr ((if b then 1 else 0) > k)"
| "py_gt (Str s) k = Inl TypeError"
| "py_gt (Date y m d) k = Inl TypeError"

definition delay_type :: "cell \<Rightarrow> error + nat" where
  "delay_type x =
     (case py_gt x 5 of
        Inl e \<Rightarrow> Inl e
      | Inr b5 \<Rightarrow>
          (case py_gt x 45 of
             Inl e \<Rightarrow> Inl e
           | Inr b45 \<Rightarrow> Inr (if b45 then 2 else (if b5 then 1 else 0))))"

section \<open>Tables\<close>

text \<open>
  A DataFrame is an ordered collection of labelled columns; a column (a Series) has a
  dtype and one cell per row. \<^verbatim>\<open>pd.read_csv\<close> gives every column its own label.
\<close>

datatype dtype = Number | Object | Boolean | Datetime

type_synonym series = "dtype \<times> cell list"

type_synonym frame = "(string \<times> series) list"

definition columns :: "frame \<Rightarrow> string list" where
  "columns t = map fst t"

definition nrows :: "frame \<Rightarrow> nat" where
  "nrows t = (case t of [] \<Rightarrow> 0 | (n, (d, xs)) # rest \<Rightarrow> length xs)"

definition aligned :: "frame \<Rightarrow> bool" where
  \<comment> \<open>every column has one cell per row\<close>
  "aligned t = list_all (\<lambda>(n, (d, xs)). length xs = nrows t) t"

text \<open>\<^verbatim>\<open>t[name]\<close> raises KeyError for a label the table does not have.\<close>

definition getcol :: "frame \<Rightarrow> string \<Rightarrow> error + series" where
  "getcol t name = (case map_of t name of None \<Rightarrow> Inl (KeyError name) | Some s \<Rightarrow> Inr s)"

text \<open>\<^verbatim>\<open>t[name] = s\<close> replaces the column of that label, or appends a new last column.\<close>

definition setcol :: "string \<Rightarrow> series \<Rightarrow> frame \<Rightarrow> frame" where
  "setcol name s t =
     (if name \<in> set (columns t)
      then map (\<lambda>(n, old). if n = name then (n, s) else (n, old)) t
      else t @ [(name, s)])"

text \<open>The row of index \<open>i\<close>, each cell with its column label, and all rows in order.\<close>

definition record_of :: "frame \<Rightarrow> nat \<Rightarrow> (string \<times> cell) list" where
  "record_of t i = map (\<lambda>(n, (d, xs)). (n, xs ! i)) t"

definition records :: "frame \<Rightarrow> (string \<times> cell) list list" where
  "records t = map (record_of t) [0..<nrows t]"

text \<open>Keeping the rows of the given indices, in the given order.\<close>

definition select_rows :: "nat list \<Rightarrow> frame \<Rightarrow> frame" where
  "select_rows idx t = map (\<lambda>(n, (d, xs)). (n, (d, map (\<lambda>i. xs ! i) idx))) t"

section \<open>The cleaning cell\<close>

text \<open>\<^verbatim>\<open>flights = flights[flights['MONTH'] == 1]\<close>\<close>

fun py_eq :: "cell \<Rightarrow> real \<Rightarrow> bool" where
  "py_eq (Num r) k = (r = k)"
| "py_eq (Flag b) k = ((if b then 1 else 0) = k)"
| "py_eq c k = False"

definition scope_filter :: "frame \<Rightarrow> error + frame" where
  "scope_filter t =
     (case getcol t ''MONTH'' of
        Inl e \<Rightarrow> Inl e
      | Inr (d, xs) \<Rightarrow>
          Inr (select_rows (filter (\<lambda>i. py_eq (xs ! i) 1) [0..<length xs]) t))"

text \<open>
  \<^verbatim>\<open>flights['DATE'] = pd.to_datetime(flights[['YEAR','MONTH','DAY']])\<close>.
  Selecting the three columns raises KeyError when one is absent. A date is assembled
  row by row: the three components must be numbers with integral values that form a
  calendar date, a missing component gives a missing date, anything else raises
  ValueError.
\<close>

definition leap_year :: "int \<Rightarrow> bool" where
  "leap_year y \<longleftrightarrow> (y mod 4 = 0 \<and> y mod 100 \<noteq> 0) \<or> y mod 400 = 0"

definition days_in_month :: "int \<Rightarrow> int \<Rightarrow> int" where
  "days_in_month y m =
     (if m = 2 then (if leap_year y then 29 else 28)
      else if m = 4 \<or> m = 6 \<or> m = 9 \<or> m = 11 then 30 else 31)"

definition valid_date :: "int \<Rightarrow> int \<Rightarrow> int \<Rightarrow> bool" where
  "valid_date y m d \<longleftrightarrow> 1 \<le> m \<and> m \<le> 12 \<and> 1 \<le> d \<and> d \<le> days_in_month y m"

fun assemble_date :: "cell \<Rightarrow> cell \<Rightarrow> cell \<Rightarrow> error + cell" where
  "assemble_date (Num y) (Num m) (Num d) =
     (if y \<in> \<int> \<and> m \<in> \<int> \<and> d \<in> \<int> \<and> valid_date \<lfloor>y\<rfloor> \<lfloor>m\<rfloor> \<lfloor>d\<rfloor>
      then Inr (Date \<lfloor>y\<rfloor> \<lfloor>m\<rfloor> \<lfloor>d\<rfloor>) else Inl ValueError)"
| "assemble_date y m d =
     (if y = Null \<or> m = Null \<or> d = Null then Inr Null else Inl ValueError)"

fun assemble_dates :: "cell list \<Rightarrow> cell list \<Rightarrow> cell list \<Rightarrow> error + cell list" where
  "assemble_dates (y # ys) (m # ms) (d # ds) =
     (case assemble_date y m d of
        Inl e \<Rightarrow> Inl e
      | Inr c \<Rightarrow> (case assemble_dates ys ms ds of Inl e \<Rightarrow> Inl e | Inr cs \<Rightarrow> Inr (c # cs)))"
| "assemble_dates ys ms ds = Inr []"

definition add_date :: "frame \<Rightarrow> error + frame" where
  "add_date t =
     (case getcol t ''YEAR'' of
        Inl e \<Rightarrow> Inl e
      | Inr (dy, ys) \<Rightarrow>
          (case getcol t ''MONTH'' of
             Inl e \<Rightarrow> Inl e
           | Inr (dm, ms) \<Rightarrow>
               (case getcol t ''DAY'' of
                  Inl e \<Rightarrow> Inl e
                | Inr (dd, ds) \<Rightarrow>
                    (case assemble_dates ys ms ds of
                       Inl e \<Rightarrow> Inl e
                     | Inr cs \<Rightarrow> Inr (setcol ''DATE'' (Datetime, cs) t)))))"

text \<open>
  \<^verbatim>\<open>flights.drop(variables_to_remove, axis = 1, inplace = True, errors='ignore')\<close>.
  Without \<^verbatim>\<open>errors='ignore'\<close> a label that is not a column raises KeyError.
\<close>

definition variables_to_remove :: "string list" where
  "variables_to_remove =
     [''TAXI_OUT'', ''TAXI_IN'', ''WHEELS_ON'', ''WHEELS_OFF'', ''YEAR'',
      ''MONTH'', ''DAY'', ''DAY_OF_WEEK'', ''DATE'', ''AIR_SYSTEM_DELAY'',
      ''SECURITY_DELAY'', ''AIRLINE_DELAY'', ''LATE_AIRCRAFT_DELAY'',
      ''WEATHER_DELAY'', ''DIVERTED'', ''CANCELLED'', ''CANCELLATION_REASON'',
      ''FLIGHT_NUMBER'', ''TAIL_NUMBER'', ''AIR_TIME'']"

definition drop_columns :: "string list \<Rightarrow> bool \<Rightarrow> frame \<Rightarrow> error + frame" where
  "drop_columns labels ignore t =
     (case filter (\<lambda>l. l \<notin> set (columns t)) labels of
        [] \<Rightarrow> Inr (filter (\<lambda>(n, s). n \<notin> set labels) t)
      | l # ls \<Rightarrow>
          if ignore then Inr (filter (\<lambda>(n, s). n \<notin> set labels) t) else Inl (KeyError l))"

definition prune :: "frame \<Rightarrow> error + frame" where
  "prune t = drop_columns variables_to_remove True t"

text \<open>
  \<^verbatim>\<open>flights.dropna(subset=essential, inplace=True)\<close>: a label of the subset that
  is not a column raises KeyError; a row stays when none of its cells in the subset's
  columns is missing.
\<close>

definition essential :: "string list" where
  "essential =
     [''AIRLINE'', ''ORIGIN_AIRPORT'', ''DESTINATION_AIRPORT'', ''SCHEDULED_DEPARTURE'',
      ''DEPARTURE_DELAY'']"

definition complete :: "string list \<Rightarrow> (string \<times> cell) list \<Rightarrow> bool" where
  "complete labels r = list_all (\<lambda>e. map_of r e \<noteq> Some Null) labels"

definition dropna :: "string list \<Rightarrow> frame \<Rightarrow> error + frame" where
  "dropna labels t =
     (case filter (\<lambda>l. l \<notin> set (columns t)) labels of
        l # ls \<Rightarrow> Inl (KeyError l)
      | [] \<Rightarrow> Inr (select_rows (filter (\<lambda>i. complete labels (record_of t i)) [0..<nrows t]) t))"

text \<open>
  \<^verbatim>\<open>for col in flights.select_dtypes(include=[np.number]).columns:
      flights[col] = flights[col].fillna(flights[col].median())\<close>.
  The median skips missing values and is itself missing when no value is left; filling
  with a missing value changes nothing.
\<close>

fun number_of :: "cell \<Rightarrow> real option" where
  "number_of (Num r) = Some r"
| "number_of (Flag b) = Some (if b then 1 else 0)"
| "number_of c = None"

definition numbers :: "cell list \<Rightarrow> real list" where
  "numbers xs = List.map_filter number_of xs"

definition median :: "cell list \<Rightarrow> real option" where
  "median xs =
     (let vs = sort (numbers xs); n = length vs
      in if n = 0 then None
         else if odd n then Some (vs ! (n div 2))
         else Some ((vs ! (n div 2 - 1) + vs ! (n div 2)) / 2))"

definition fillna :: "real option \<Rightarrow> cell list \<Rightarrow> cell list" where
  "fillna v xs =
     (case v of None \<Rightarrow> xs | Some m \<Rightarrow> map (\<lambda>c. if c = Null then Num m else c) xs)"

definition numeric_columns :: "frame \<Rightarrow> string list" where
  "numeric_columns t = map fst (filter (\<lambda>(n, (d, xs)). d = Number) t)"

definition fill_column :: "string \<Rightarrow> frame \<Rightarrow> frame" where
  "fill_column col t =
     (case map_of t col of
        None \<Rightarrow> t
      | Some (d, xs) \<Rightarrow> setcol col (d, fillna (median xs) xs) t)"

definition fill_numeric :: "frame \<Rightarrow> frame" where
  "fill_numeric t = fold fill_column (numeric_columns t) t"

text \<open>The data-changing statements of the cleaning cell, in the order of the cell.\<close>

definition cleaning_cell :: "frame \<Rightarrow> error + frame" where
  "cleaning_cell t =
     (case scope_filter t of
        Inl e \<Rightarrow> Inl e
      | Inr t1 \<Rightarrow>
          (case add_date t1 of
             Inl e \<Rightarrow> Inl e
           | Inr t2 \<Rightarrow>
               (case prune t2 of
                  Inl e \<Rightarrow> Inl e
                | Inr t3 \<Rightarrow>
                    (case dropna essential t3 of
                       Inl e \<Rightarrow> Inl e
                     | Inr t4 \<Rightarrow> Inr (fill_numeric t4)))))"

section \<open>The feature cell\<close>

text \<open>
  \<^verbatim>\<open>flights['SCHED_DEP_HOUR'] = flights['SCHEDULED_DEPARTURE'].apply(sched_hour)\<close>:
  the helper runs on every cell in order, and the first error ends the statement.
\<close>

fun apply_sched_hour :: "cell list \<Rightarrow> error + cell list" where
  "apply_sched_hour [] = Inr []"
| "apply_sched_hour (x # xs) =
     (case sched_hour x of
        Inl e \<Rightarrow> Inl e
      | Inr h \<Rightarrow>
          (case apply_sched_hour xs of
             Inl e \<Rightarrow> Inl e
           | Inr hs \<Rightarrow> Inr (Num (of_int h) # hs)))"

text \<open>
  \<^verbatim>\<open>flights['IS_WEEKEND'] = pd.to_datetime(flights['DATE']).dt.dayofweek >= 5\<close>.
  The day of the week of a Gregorian date, Monday being 0, by Sakamoto's formula. A
  missing date has no day of the week, and its comparison is false. The only DATE column
  this notebook ever writes is the datetime column of the cleaning cell, which
  \<^verbatim>\<open>pd.to_datetime\<close> returns as it is; the conversion of columns of other
  dtypes is outside the model and reported as TypeError.
\<close>

definition month_offset :: "int \<Rightarrow> int" where
  "month_offset m = [0, 3, 2, 5, 0, 3, 5, 1, 4, 6, 2, 4] ! nat (m - 1)"

definition dayofweek :: "int \<Rightarrow> int \<Rightarrow> int \<Rightarrow> int" where
  "dayofweek y m d =
     (let y' = (if m < 3 then y - 1 else y);
          sunday_based = (y' + y' div 4 - y' div 100 + y' div 400 + month_offset m + d) mod 7
      in (sunday_based + 6) mod 7)"

fun is_weekend :: "cell \<Rightarrow> bool" where
  "is_weekend (Date y m d) = (dayofweek y m d \<ge> 5)"
| "is_weekend c = False"

definition feature_cell :: "frame \<Rightarrow> error + frame" where
  "feature_cell t =
     (case getcol t ''SCHEDULED_DEPARTURE'' of
        Inl e \<Rightarrow> Inl e
      | Inr (d, xs) \<Rightarrow>
          (case apply_sched_hour xs of
             Inl e \<Rightarrow> Inl e
           | Inr hs \<Rightarrow>
               (let t1 = setcol ''SCHED_DEP_HOUR'' (Number, hs) t
                in case getcol t1 ''DATE'' of
                     Inl e \<Rightarrow> Inl e
                   | Inr (dd, ds) \<Rightarrow>
                       if dd = Datetime
                       then Inr (setcol ''IS_WEEKEND'' (Boolean, map (\<lambda>c. Flag (is_weekend c)) ds) t1)
                       else Inl TypeError)))"

text \<open>The cleaning cell followed by the feature cell, as the notebook runs them.\<close>

definition clean_then_derive :: "frame \<Rightarrow> error + frame" where
  "clean_then_derive t = (case cleaning_cell t of Inl e \<Rightarrow> Inl e | Inr t' \<Rightarrow> feature_cell t')"

section \<open>The integrity cell\<close>

text \<open>
  \<^verbatim>\<open>flights = flights.drop_duplicates()\<close> keeps, of the rows that are equal in
  every column, the first one, and the variable is bound to the result. Then
  \<^verbatim>\<open>(flights['DISTANCE'] < 0).sum()\<close> and
  \<^verbatim>\<open>(flights['DEPARTURE_DELAY'] < 0).sum()\<close> are printed.
\<close>

definition drop_duplicates :: "frame \<Rightarrow> frame" where
  "drop_duplicates t =
     select_rows
       (filter (\<lambda>i. record_of t i \<notin> set (map (record_of t) [0..<i])) [0..<nrows t]) t"

fun py_lt :: "cell \<Rightarrow> real \<Rightarrow> error + bool" where
  "py_lt Null k = Inr False"
| "py_lt (Num r) k = Inr (r < k)"
| "py_lt (Flag b) k = Inr ((if b then 1 else 0) < k)"
| "py_lt (Str s) k = Inl TypeError"
| "py_lt (Date y m d) k = Inl TypeError"

fun count_below :: "real \<Rightarrow> cell list \<Rightarrow> error + nat" where
  "count_below k [] = Inr 0"
| "count_below k (x # xs) =
     (case py_lt x k of
        Inl e \<Rightarrow> Inl e
      | Inr b \<Rightarrow>
          (case count_below k xs of
             Inl e \<Rightarrow> Inl e
           | Inr n \<Rightarrow> Inr (if b then Suc n else n)))"

definition integrity_cell :: "frame \<Rightarrow> error + (frame \<times> nat \<times> nat)" where
  \<comment> \<open>the table bound to \<^verbatim>\<open>flights\<close> afterwards, and the two printed counts\<close>
  "integrity_cell t =
     (let t' = drop_duplicates t
      in case getcol t' ''DISTANCE'' of
           Inl e \<Rightarrow> Inl e
         | Inr (d1, distances) \<Rightarrow>
             (case count_below 0 distances of
                Inl e \<Rightarrow> Inl e
              | Inr negative_distances \<Rightarrow>
                  (case getcol t' ''DEPARTURE_DELAY'' of
                     Inl e \<Rightarrow> Inl e
                   | Inr (d2, delays) \<Rightarrow>
                       (case count_below 0 delays of
                          Inl e \<Rightarrow> Inl e
                        | Inr negative_delays \<Rightarrow> Inr (t', negative_distances, negative_delays)))))"

section \<open>The outlier cell\<close>

text \<open>
  \<^verbatim>\<open>delay_cap = flights['DEPARTURE_DELAY'].mean() + 3*flights['DEPARTURE_DELAY'].std()\<close>.
  Both statistics skip missing values. \<^verbatim>\<open>Series.std\<close> has \<^verbatim>\<open>ddof=1\<close>: the
  sum of squared deviations is divided by the count less one, and the result is NaN
  for fewer than two values. The mean of no value is NaN.
\<close>

definition mean :: "cell list \<Rightarrow> real option" where
  "mean xs =
     (let vs = numbers xs
      in if vs = [] then None else Some (sum_list vs / real (length vs)))"

definition std :: "cell list \<Rightarrow> real option" where
  "std xs =
     (let vs = numbers xs; n = length vs
      in if n < 2 then None
         else (let avg = sum_list vs / real n
               in Some (sqrt (sum_list (map (\<lambda>v. (avg - v)\<^sup>2) vs) / (real n - 1)))))"

definition delay_cap :: "cell list \<Rightarrow> real option" where
  "delay_cap xs =
     (case mean xs of
        None \<Rightarrow> None
      | Some m \<Rightarrow> (case std xs of None \<Rightarrow> None | Some s \<Rightarrow> Some (m + 3 * s)))"

text \<open>
  \<^verbatim>\<open>np.where(flights['DEPARTURE_DELAY'] > delay_cap, delay_cap, flights['DEPARTURE_DELAY'])\<close>:
  where the comparison holds the cell is the cap, elsewhere the cell's own value as a
  number. A comparison with NaN on either side is false. The column is numeric:
  \<^verbatim>\<open>DEPARTURE_DELAY\<close> holds minutes.
\<close>

definition capped :: "real option \<Rightarrow> cell \<Rightarrow> cell" where
  "capped cap x =
     (case number_of x of
        None \<Rightarrow> Null
      | Some v \<Rightarrow>
          (case cap of
             None \<Rightarrow> Num v
           | Some c \<Rightarrow> if v > c then Num c else Num v))"

definition cap_series :: "cell list \<Rightarrow> cell list" where
  "cap_series xs = map (capped (delay_cap xs)) xs"

text \<open>
  The cap as the specification words it, for comparison: the mean plus three times the
  population standard deviation, where the sum of squared deviations is divided by the
  count.
\<close>

definition spec_population_std :: "real list \<Rightarrow> real" where
  "spec_population_std vs =
     (let avg = sum_list vs / real (length vs)
      in sqrt (sum_list (map (\<lambda>v. (v - avg)\<^sup>2) vs) / real (length vs)))"

definition spec_cap :: "real list \<Rightarrow> real" where
  "spec_cap vs = sum_list vs / real (length vs) + 3 * spec_population_std vs"

section \<open>Example tables\<close>

text \<open>
  Three flights of one airline, the second without an origin airport, and the same
  table without the second flight.
\<close>

definition three_flights :: frame where
  "three_flights =
     [(''AIRLINE'', (Object, [Str ''AA'', Str ''AA'', Str ''AA''])),
      (''ORIGIN_AIRPORT'', (Object, [Str ''JFK'', Null, Str ''ORD''])),
      (''DESTINATION_AIRPORT'', (Object, [Str ''LAX'', Str ''SFO'', Str ''MIA''])),
      (''SCHEDULED_DEPARTURE'', (Number, [Num 930, Num 1730, Num 5])),
      (''DEPARTURE_DELAY'', (Number, [Num 3, Num 10, Num 50]))]"

definition two_flights :: frame where
  "two_flights =
     [(''AIRLINE'', (Object, [Str ''AA'', Str ''AA''])),
      (''ORIGIN_AIRPORT'', (Object, [Str ''JFK'', Str ''ORD''])),
      (''DESTINATION_AIRPORT'', (Object, [Str ''LAX'', Str ''MIA''])),
      (''SCHEDULED_DEPARTURE'', (Number, [Num 930, Num 5])),
      (''DEPARTURE_DELAY'', (Number, [Num 3, Num 50]))]"

text \<open>
  A table with gaps: a missing airline, one missing value in each of two numeric
  columns, and a numeric column without any value.
\<close>

definition gappy_flights :: frame where
  "gappy_flights =
     [(''AIRLINE'', (Object, [Str ''AA'', Null, Str ''DL'', Str ''UA''])),
      (''DISTANCE'', (Number, [Num 300, Null, Num 100, Num 200])),
      (''ARRIVAL_DELAY'', (Number, [Num 7, Num (-2), Null, Num 4])),
      (''ELAPSED_TIME'', (Number, [Null, Null, Null, Null]))]"

text \<open>
  Sixteen departure delays with one outlier, and the same column after capping.
\<close>

definition outlier_delays :: "real list" where
  "outlier_delays = [0, 0, 0, 0, 0, 0, 0, 0, 0, 0, 0, 0, 0, 0, 0, 16]"

definition outlier_delays_capped :: "real list" where
  "outlier_delays_capped = [0, 0, 0, 0, 0, 0, 0, 0, 0, 0, 0, 0, 0, 0, 0, 13]"

text \<open>
  Three flights of which the first two are equal in every column, and the same table
  without the repeated flight.
\<close>

definition repeated_flights :: frame where
  "repeated_flights =
     [(''AIRLINE'', (Object, [Str ''AA'', Str ''AA'', Str ''DL''])),
      (''DISTANCE'', (Number, [Num 100, Num 100, Num 250])),
      (''DEPARTURE_DELAY'', (Number, [Num (-3), Num (-3), Num 12]))]"

definition distinct_flights :: frame where
  "distinct_flights =
     [(''AIRLINE'', (Object, [Str ''AA'', Str ''DL''])),
      (''DISTANCE'', (Number, [Num 100, Num 250])),
      (''DEPARTURE_DELAY'', (Number, [Num (-3), Num 12]))]"

text \<open>
  Two flights, one in January and one in February, and the table after the scope
  filter, after adding the date, and after the whole cleaning cell.
\<close>

definition winter_flights :: frame where
  "winter_flights =
     [(''YEAR'', (Number, [Num 2015, Num 2015])),
      (''MONTH'', (Number, [Num 1, Num 2])),
      (''DAY'', (Number, [Num 3, Num 7])),
      (''AIRLINE'', (Object, [Str ''AA'', Str ''DL''])),
      (''ORIGIN_AIRPORT'', (Object, [Str ''JFK'', Str ''ATL''])),
      (''DESTINATION_AIRPORT'', (Object, [Str ''LAX'', Str ''ORD''])),
      (''SCHEDULED_DEPARTURE'', (Number, [Num 930, Num 1730])),
      (''DEPARTURE_DELAY'', (Number, [Num 3, Num 10])),
      (''DISTANCE'', (Number, [Num 2475, Num 606]))]"

definition winter_january :: frame where
  "winter_january =
     [(''YEAR'', (Number, [Num 2015])),
      (''MONTH'', (Number, [Num 1])),
      (''DAY'', (Number, [Num 3])),
      (''AIRLINE'', (Object, [Str ''AA''])),
      (''ORIGIN_AIRPORT'', (Object, [Str ''JFK''])),
      (''DESTINATION_AIRPORT'', (Object, [Str ''LAX''])),
      (''SCHEDULED_DEPARTURE'', (Number, [Num 930])),
      (''DEPARTURE_DELAY'', (Number, [Num 3])),
      (''DISTANCE'', (Number, [Num 2475]))]"

definition winter_dated :: frame where
  "winter_dated =
     [(''YEAR'', (Number, [Num 2015])),
      (''MONTH'', (Number, [Num 1])),
      (''DAY'', (Number, [Num 3])),
      (''AIRLINE'', (Object, [Str ''AA''])),
      (''ORIGIN_AIRPORT'', (Object, [Str ''JFK''])),
      (''DESTINATION_AIRPORT'', (Object, [Str ''LAX''])),
      (''SCHEDULED_DEPARTURE'', (Number, [Num 930])),
      (''DEPARTURE_DELAY'', (Number, [Num 3])),
      (''DISTANCE'', (Number, [Num 2475])),
      (''DATE'', (Datetime, [Date 2015 1 3]))]"

definition winter_flights_cleaned :: frame where
  "winter_flights_cleaned =
     [(''AIRLINE'', (Object, [Str ''AA''])),
      (''ORIGIN_AIRPORT'', (Object, [Str ''JFK''])),
      (''DESTINATION_AIRPORT'', (Object, [Str ''LAX''])),
      (''SCHEDULED_DEPARTURE'', (Number, [Num 930])),
      (''DEPARTURE_DELAY'', (Number, [Num 3])),
      (''DISTANCE'', (Number, [Num 2475]))]"

section \<open>Scheduled hour: digits, padding and parsing\<close>

lemma digit_val_digit_char: "d < 10 \<Longrightarrow> digit_val (digit_char d) = Some d"
proof -
  assume "d < 10"
  then have "d \<in> {0,1,2,3,4,5,6,7,8,9}" by auto
  then show ?thesis by (auto simp: digit_val_def digit_char_def)
qed

lemma digit_val_plain:
  assumes "digit_val c = Some v"
  shows "\<not> is_space c" "c \<noteq> CHR ''-''" "c \<noteq> CHR ''+''" "c \<noteq> CHR ''_''"
  using assms by (auto simp: digit_val_def is_space_def split: if_splits)

lemma int_of_str_two:
  assumes "digit_val a = Some x" "digit_val b = Some y"
  shows "int_of_str [a, b] = Inr (int (10 * x + y))"
  using assms digit_val_plain[OF assms(1)] digit_val_plain[OF assms(2)]
  by (simp add: int_of_str_def strip_def digits_value_def)

lemma int_of_str_minus:
  assumes "digit_val b = Some y"
  shows "int_of_str [CHR ''-'', b] = Inr (- int y)"
  using assms digit_val_plain[OF assms(1)]
  by (simp add: int_of_str_def strip_def digits_value_def is_space_def)

lemma str_nat_digits: "str_nat n \<noteq> [] \<and> (\<forall>c \<in> set (str_nat n). digit_val c \<noteq> None)"
proof (induction n rule: str_nat.induct)
  case (1 n)
  show ?case
  proof (cases "n < 10")
    case True
    then show ?thesis by (simp add: str_nat.simps[of n] digit_val_digit_char)
  next
    case False
    then have "n mod 10 < 10" by simp
    with False 1 show ?thesis
      by (simp add: str_nat.simps[of n] digit_val_digit_char)
  qed
qed

lemma zfill_digits:
  assumes "s \<noteq> []" "\<forall>c \<in> set s. digit_val c \<noteq> None"
  shows "\<exists>a b x y. take 2 (zfill 4 s) = [a, b] \<and> digit_val a = Some x \<and> digit_val b = Some y"
proof -
  have z: "digit_val (CHR ''0'') = Some 0" by (simp add: digit_val_def)
  have hd: "hd s \<noteq> CHR ''+'' \<and> hd s \<noteq> CHR ''-''"
    using assms by (cases s) (auto simp: digit_val_def)
  have zf: "zfill 4 s = replicate (4 - length s) (CHR ''0'') @ s"
    using assms hd by (cases s) (auto simp: zfill_def)
  have all: "\<forall>c \<in> set (zfill 4 s). digit_val c \<noteq> None"
    using assms z by (auto simp: zf)
  have len: "2 \<le> length (zfill 4 s)" by (simp add: zf)
  then obtain a b r where abr: "zfill 4 s = a # b # r"
    by (metis Suc_le_length_iff numeral_2_eq_2)
  with all show ?thesis by auto
qed

lemma zfill_neg_digits:
  assumes "s \<noteq> []" "\<forall>c \<in> set s. digit_val c \<noteq> None"
  shows "\<exists>b y. take 2 (zfill 4 (CHR ''-'' # s)) = [CHR ''-'', b] \<and> digit_val b = Some y"
proof -
  have z: "digit_val (CHR ''0'') = Some 0" by (simp add: digit_val_def)
  have zf: "zfill 4 (CHR ''-'' # s) = CHR ''-'' # replicate (3 - length s) (CHR ''0'') @ s"
    by (auto simp: zfill_def)
  have all: "\<forall>c \<in> set (replicate (3 - length s) (CHR ''0'') @ s). digit_val c \<noteq> None"
    using assms z by auto
  have "replicate (3 - length s) (CHR ''0'') @ s \<noteq> []" using assms by simp
  then obtain b r where "replicate (3 - length s) (CHR ''0'') @ s = b # r"
    by (cases "replicate (3 - length s) (CHR ''0'') @ s") auto
  with all zf show ?thesis by auto
qed

lemma sched_hour_total: "\<exists>h. sched_hour (Num (of_int n)) = Inr h"
proof (cases "n < 0")
  case True
  obtain b y where "take 2 (zfill 4 (CHR ''-'' # str_nat (nat (- n)))) = [CHR ''-'', b]" "digit_val b = Some y"
    using zfill_neg_digits[of "str_nat (nat (- n))"] str_nat_digits[of "nat (- n)"] by blast
  with True show ?thesis
    by (simp add: sched_hour_def truncate_def str_int_def int_of_str_minus)
next
  case False
  obtain a b x y where "take 2 (zfill 4 (str_nat (nat n))) = [a, b]" "digit_val a = Some x" "digit_val b = Some y"
    using zfill_digits[of "str_nat (nat n)"] str_nat_digits[of "nat n"] by blast
  with False show ?thesis
    by (simp add: sched_hour_def truncate_def str_int_def int_of_str_two)
qed

lemma str_nat_small: "n < 10 \<Longrightarrow> str_nat n = [digit_char n]"
  by (simp add: str_nat.simps[of n])

lemma str_nat_step: "10 \<le> n \<Longrightarrow> str_nat n = str_nat (n div 10) @ [digit_char (n mod 10)]"
  by (simp add: str_nat.simps[of n])

lemma zfill_pad:
  assumes "s \<noteq> []" "\<forall>c \<in> set s. digit_val c \<noteq> None"
  shows "zfill 4 s = replicate (4 - length s) (CHR ''0'') @ s"
proof -
  have hd: "hd s \<noteq> CHR ''+'' \<and> hd s \<noteq> CHR ''-''"
    using assms by (cases s) (auto simp: digit_val_def)
  show ?thesis using assms hd by (cases s) (auto simp: zfill_def)
qed

lemma zero_char: "CHR ''0'' = digit_char 0"
  by (simp add: digit_char_def)

lemma zfill4_str_nat:
  assumes "n < 10000"
  shows "zfill 4 (str_nat n) = [digit_char (n div 1000), digit_char (n div 100 mod 10), digit_char (n div 10 mod 10), digit_char (n mod 10)]"
proof -
  have zf: "zfill 4 (str_nat n) = replicate (4 - length (str_nat n)) (CHR ''0'') @ str_nat n"
    using zfill_pad str_nat_digits by blast
  consider "n < 10" | "10 \<le> n" "n < 100" | "100 \<le> n" "n < 1000" | "1000 \<le> n" by linarith
  then show ?thesis
  proof cases
    case 1
    then show ?thesis using zf
      by (simp add: str_nat_small numeral_3_eq_3 zero_char)
  next
    case 2
    then have "n div 10 < 10" by simp
    with 2 zf show ?thesis 
      by (simp add: str_nat_small str_nat_step numeral_2_eq_2 zero_char)
  next
    case 3
    then have a: "n div 10 div 10 < 10" "10 \<le> n div 10" by auto
    have b: "n div 10 div 10 = n div 100" by (simp add: div_mult2_eq[symmetric])
    with 3 a zf show ?thesis  
      by (simp add: str_nat_small str_nat_step zero_char)
  next
    case 4
    then have a: "n div 10 div 10 div 10 < 10" "10 \<le> n div 10" "10 \<le> n div 10 div 10" using assms by auto
    have b: "n div 10 div 10 = n div 100" "n div 10 div 10 div 10 = n div 1000" by (simp_all add: div_mult2_eq[symmetric])
    with 4 a zf show ?thesis 
      by (simp add: str_nat_small str_nat_step zero_char)
  qed
qed

lemma take2_zfill_str_nat:
  assumes "n < 10000"
  shows "take 2 (zfill 4 (str_nat n)) = [digit_char (n div 1000), digit_char (n div 100 mod 10)]"
  using zfill4_str_nat[OF assms] by simp

lemma sched_hour_value:
  assumes "0 \<le> n" "n \<le> 9999"
  shows "sched_hour (Num (of_int n)) = Inr (n div 100)"
proof -
  define m where "m = nat n"
  have m: "m < 10000" "n = int m" using assms by (auto simp: m_def)
  have d: "m div 1000 < 10" "m div 100 mod 10 < 10" using m by auto
  have "m div 1000 = m div 100 div 10" by (simp add: div_mult2_eq[symmetric])
  then have e: "10 * (m div 1000) + m div 100 mod 10 = m div 100"
    by simp
  have "sched_hour (Num (of_int n)) = int_of_str (take 2 (zfill 4 (str_nat m)))"
    using assms by (simp add: sched_hour_def truncate_def str_int_def m_def)
  also have "\<dots> = Inr (int (10 * (m div 1000) + m div 100 mod 10))"
    using m d by (simp only: take2_zfill_str_nat int_of_str_two[OF digit_val_digit_char digit_val_digit_char])
  also have "\<dots> = Inr (n div 100)"
    unfolding e using m by (simp add: zdiv_int)
  finally show ?thesis .
qed

section \<open>Claims about the scheduled hour and the delay level\<close>

text \<open>
  C1 (amended). \<^const>\<open>sched_hour\<close> has no range check and never fails on an integer:
  for every integer it returns a value, and for every integer from 2400 to 9999 that
  value is the number formed by the first two of its four digits, which is greater
  than 23. For 9999 it returns 99.
\<close>

theorem sched_hour_no_range_check:
  "(\<exists>h. sched_hour (Num (of_int n)) = Inr h) \<and>
   (2400 \<le> n \<and> n \<le> 9999 \<longrightarrow>
      sched_hour (Num (of_int n)) = Inr (n div 100) \<and> 23 < n div 100)"
proof -
  have "23 < n div 100" if "2400 \<le> n" using that by linarith
  then show ?thesis
    using sched_hour_total[of n] sched_hour_value[of n] by auto
qed

theorem sched_hour_no_range_check_witness:
  "(2400::int) \<le> 9999 \<and> sched_hour (Num 9999) = Inr 99"
  using sched_hour_no_range_check[of 9999] by simp

text \<open>
  C1 as stated fails at 9999: the padded digits start with 99, and the helper returns 99
  instead of raising ValueError.
\<close>

theorem sched_hour_9999_counterexample:
  "sched_hour (Num 9999) = Inr 99 \<and> sched_hour (Num 9999) \<noteq> Inl ValueError"
  using sched_hour_value[of 9999] by simp

text \<open>
  C6. For an integer from 0 to 2359 the decimal representation is padded on the left to
  four digits, and \<^const>\<open>sched_hour\<close> returns the number formed by the first two
  of them, which is the integer divided by 100 and lies between 0 and 23. The inputs 0,
  5, 930, 1730 and 2359 give the hours 0, 0, 9, 17 and 23.
\<close>

theorem sched_hour_valid_hhmm:
  "(0 \<le> n \<and> n \<le> 2359 \<longrightarrow>
      zfill 4 (str_int n) =
        [digit_char (nat n div 1000), digit_char (nat n div 100 mod 10),
         digit_char (nat n div 10 mod 10), digit_char (nat n mod 10)] \<and>
      sched_hour (Num (of_int n)) = Inr (int (10 * (nat n div 1000) + nat n div 100 mod 10)) \<and>
      sched_hour (Num (of_int n)) = Inr (n div 100) \<and>
      0 \<le> n div 100 \<and> n div 100 \<le> 23) \<and>
   sched_hour (Num 0) = Inr 0 \<and> sched_hour (Num 5) = Inr 0 \<and>
   sched_hour (Num 930) = Inr 9 \<and> sched_hour (Num 1730) = Inr 17 \<and>
   sched_hour (Num 2359) = Inr 23"
proof -
  have gen: "zfill 4 (str_int n) =
        [digit_char (nat n div 1000), digit_char (nat n div 100 mod 10),
         digit_char (nat n div 10 mod 10), digit_char (nat n mod 10)] \<and>
      sched_hour (Num (of_int n)) = Inr (int (10 * (nat n div 1000) + nat n div 100 mod 10)) \<and>
      sched_hour (Num (of_int n)) = Inr (n div 100) \<and>
      0 \<le> n div 100 \<and> n div 100 \<le> 23" if n: "0 \<le> n" "n \<le> 2359"
  proof -
    define m where "m = nat n"
    have m: "m < 10000" "n = int m" using n by (auto simp: m_def)
    have "m div 1000 = m div 100 div 10" by (simp add: div_mult2_eq[symmetric])
    then have e: "10 * (m div 1000) + m div 100 mod 10 = m div 100" by simp
    have v: "sched_hour (Num (of_int n)) = Inr (n div 100)"
      using sched_hour_value[of n] n by simp
    have "int (m div 100) = n div 100" using m by (simp add: zdiv_int)
    with v e have v2: "sched_hour (Num (of_int n)) = Inr (int (10 * (m div 1000) + m div 100 mod 10))"
      by simp
    have z: "zfill 4 (str_int n) = [digit_char (m div 1000), digit_char (m div 100 mod 10),
         digit_char (m div 10 mod 10), digit_char (m mod 10)]"
      using zfill4_str_nat[OF m(1)] n by (simp add: str_int_def m_def)
    have r: "0 \<le> n div 100" "n div 100 \<le> 23" using n by linarith+
    show ?thesis using z v v2 r unfolding m_def by blast
  qed
  have ex: "sched_hour (Num 0) = Inr 0" "sched_hour (Num 5) = Inr 0"
   "sched_hour (Num 930) = Inr 9" "sched_hour (Num 1730) = Inr 17"
   "sched_hour (Num 2359) = Inr 23"
    using sched_hour_value[of 0] sched_hour_value[of 5] sched_hour_value[of 930]
      sched_hour_value[of 1730] sched_hour_value[of 2359] by simp_all
  show ?thesis using gen ex by blast
qed

theorem sched_hour_valid_hhmm_witness:
  "(0::int) \<le> 1730 \<and> (1730::int) \<le> 2359 \<and> zfill 4 (str_int 1730) = ''1730'' \<and>
   sched_hour (Num 1730) = Inr 17"
  using sched_hour_valid_hhmm[of 1730] by (simp add: digit_char_def)

text \<open>
  C5. The delay level of a number is 0 up to and including 5, 1 above 5 up to and
  including 45, and 2 above 45; 5.0 gives 0, 5.01 gives 1, 45.0 gives 1 and 45.01
  gives 2.
\<close>

theorem delay_type_buckets:
  "delay_type (Num x) = Inr (if x \<le> 5 then 0 else if x \<le> 45 then 1 else 2) \<and>
   delay_type (Num 5.0) = Inr 0 \<and> delay_type (Num 5.01) = Inr 1 \<and>
   delay_type (Num 45.0) = Inr 1 \<and> delay_type (Num 45.01) = Inr 2"
  by (simp add: delay_type_def)

section \<open>Column pruning\<close>

lemma prune_eq: "prune t = Inr (filter (\<lambda>(n, s). n \<notin> set variables_to_remove) t)"
  by (simp add: prune_def drop_columns_def split: list.split)

lemma columns_filter: "set (columns (filter (\<lambda>(n, s). n \<notin> L) t)) = set (columns t) - L"
  by (auto simp: columns_def)

lemma filter_labels_id:
  assumes "set (columns t) \<inter> L = {}"
  shows "filter (\<lambda>(n, s). n \<notin> L) t = t"
proof -
  have "\<forall>x \<in> set t. (\<lambda>(n, s). n \<notin> L) x"
    using assms by (auto simp: columns_def)
  then show ?thesis by (simp add: filter_id_conv)
qed

text \<open>
  C9. Column pruning never fails; pruning the pruned table again returns it unchanged,
  and pruning a table that has none of the listed columns returns that table unchanged.
\<close>

theorem prune_idempotent:
  "(\<exists>t'. prune t = Inr t' \<and> prune t' = Inr t') \<and>
   (set (columns t) \<inter> set variables_to_remove = {} \<longrightarrow> prune t = Inr t)"
proof -
  let ?t' = "filter (\<lambda>(n, s). n \<notin> set variables_to_remove) t"
  have "set (columns ?t') \<inter> set variables_to_remove = {}"
    by (auto simp: columns_filter)
  then have "prune ?t' = Inr ?t'"
    by (simp add: prune_eq filter_labels_id)
  moreover have "prune t = Inr t" if "set (columns t) \<inter> set variables_to_remove = {}"
    using that by (simp add: prune_eq filter_labels_id)
  ultimately show ?thesis by (auto simp: prune_eq)
qed

theorem prune_idempotent_witness:
  "set (columns three_flights) \<inter> set variables_to_remove = {} \<and>
   prune three_flights = Inr three_flights"
proof -
  have "set (columns three_flights) \<inter> set variables_to_remove = {}"
    by (simp add: columns_def three_flights_def variables_to_remove_def)
  then show ?thesis using prune_idempotent[of three_flights] by blast
qed

section \<open>Row selection and the essential-field row drop\<close>

lemma nrows_select_rows: "t = [] \<longrightarrow> idx = [] \<Longrightarrow> nrows (select_rows idx t) = length idx"
  by (cases t) (auto simp: nrows_def select_rows_def)

lemma record_of_select_rows:
  "j < length idx \<Longrightarrow> record_of (select_rows idx t) j = record_of t (idx ! j)"
  by (auto simp: record_of_def select_rows_def)

lemma records_select_rows:
  assumes "t = [] \<longrightarrow> idx = []"
  shows "records (select_rows idx t) = map (record_of t) idx"
proof -
  have "records (select_rows idx t) = map (\<lambda>j. record_of t (idx ! j)) [0..<length idx]"
    using assms by (simp add: records_def nrows_select_rows record_of_select_rows)
  also have "\<dots> = map (record_of t) (map (\<lambda>j. idx ! j) [0..<length idx])" by simp
  also have "\<dots> = map (record_of t) idx" by (simp only: map_nth)
  finally show ?thesis .
qed

lemma columns_select_rows: "columns (select_rows idx t) = columns t"
  by (auto simp: columns_def select_rows_def)

lemma nrows_Nil: "nrows [] = 0"
  by (simp add: nrows_def)

lemma dropna_ok:
  assumes "set labels \<subseteq> set (columns t)"
  shows "dropna labels t =
           Inr (select_rows (filter (\<lambda>i. complete labels (record_of t i)) [0..<nrows t]) t)"
proof -
  have "filter (\<lambda>l. l \<notin> set (columns t)) labels = []"
    using assms by (auto simp: filter_empty_conv)
  then show ?thesis by (simp add: dropna_def)
qed

lemma records_dropna:
  assumes "dropna labels t = Inr t'"
  shows "records t' = filter (complete labels) (records t)" "columns t' = columns t"
proof -
  let ?idx = "filter (\<lambda>i. complete labels (record_of t i)) [0..<nrows t]"
  have t': "t' = select_rows ?idx t"
    using assms by (auto simp: dropna_def split: list.splits)
  have "t = [] \<longrightarrow> ?idx = []" by (simp add: nrows_Nil)
  then have "records t' = map (record_of t) ?idx"
    unfolding t' by (rule records_select_rows)
  also have "\<dots> = filter (complete labels) (records t)"
    by (simp add: records_def filter_map comp_def)
  finally show "records t' = filter (complete labels) (records t)" .
  show "columns t' = columns t" by (simp add: t' columns_select_rows)
qed

lemma map_of_record_of:
  assumes "e \<in> set (columns t)"
  shows "\<exists>c. map_of (record_of t i) e = Some c"
proof -
  have "e \<in> fst ` set (record_of t i)"
    using assms by (force simp: record_of_def columns_def)
  then show ?thesis by (metis map_of_eq_None_iff not_Some_eq)
qed

text \<open>
  C7. When the five essential columns are present, the row drop succeeds, keeps the
  columns, and keeps exactly the rows that have no missing value in any of the five
  essential fields, in their order; so every remaining row has a value in each of
  them. Of three rows where only the second has no origin airport, only the second is
  removed.
\<close>

theorem dropna_essential_exact:
  assumes "set essential \<subseteq> set (columns t)"
  shows "\<exists>t'. dropna essential t = Inr t' \<and> columns t' = columns t \<and>
           records t' = filter (\<lambda>r. \<forall>e \<in> set essential. map_of r e \<noteq> Some Null) (records t) \<and>
           (\<forall>r \<in> set (records t'). \<forall>e \<in> set essential. \<exists>c. map_of r e = Some c \<and> c \<noteq> Null)"
proof -
  obtain t' where t': "dropna essential t = Inr t'"
    using dropna_ok[OF assms] by blast
  have r: "records t' = filter (complete essential) (records t)" and c: "columns t' = columns t"
    using records_dropna[OF t'] by blast+
  have f: "complete essential = (\<lambda>r. \<forall>e \<in> set essential. map_of r e \<noteq> Some Null)"
    by (auto simp: complete_def list_all_iff)
  have "\<exists>c. map_of r e = Some c \<and> c \<noteq> Null"
    if "r \<in> set (records t')" "e \<in> set essential" for r e
  proof -
    from that(1) r have "r \<in> set (records t)" and cr: "complete essential r" by auto
    then obtain i where "r = record_of t i" by (auto simp: records_def)
    with that(2) assms obtain c where "map_of r e = Some c"
      using map_of_record_of[of e t i] by blast
    moreover have "map_of r e \<noteq> Some Null"
      using cr that(2) by (simp add: f)
    ultimately show ?thesis by auto
  qed
  with t' r c f show ?thesis by auto
qed

theorem dropna_essential_exact_witness:
  "set essential \<subseteq> set (columns three_flights) \<and>
   dropna essential three_flights = Inr two_flights \<and>
   length (records three_flights) = 3 \<and>
   records two_flights = [records three_flights ! 0, records three_flights ! 2]"
proof -
  have s: "set essential \<subseteq> set (columns three_flights)"
    by (simp add: essential_def columns_def three_flights_def)
  have d: "dropna essential three_flights = Inr two_flights"
    by (simp add: dropna_def essential_def columns_def three_flights_def two_flights_def
        nrows_def select_rows_def record_of_def complete_def upt_rec)
  have r: "length (records three_flights) = 3 \<and>
      records two_flights = [records three_flights ! 0, records three_flights ! 2]"
    by (simp add: records_def three_flights_def two_flights_def nrows_def record_of_def upt_rec)
  show ?thesis using dropna_essential_exact[OF s] s d r by simp
qed

section \<open>Median imputation\<close>

lemma columns_setcol_present: "name \<in> set (columns t) \<Longrightarrow> columns (setcol name s t) = columns t"
  by (auto simp: setcol_def columns_def)

lemma fill_column_map:
  assumes "distinct (columns t)"
  shows "fill_column col t =
           map (\<lambda>(n, (d, xs)). (n, (d, if n = col then fillna (median xs) xs else xs))) t"
proof (cases "map_of t col")
  case None
  then have "col \<notin> fst ` set t" by (simp add: map_of_eq_None_iff)
  then have "\<forall>x \<in> set t. (\<lambda>(n, (d, xs)). (n, (d, if n = col then fillna (median xs) xs else xs))) x = x"
    by force
  then have "map (\<lambda>(n, (d, xs)). (n, (d, if n = col then fillna (median xs) xs else xs))) t = t"
    by (simp add: map_idI)
  with None show ?thesis by (simp add: fill_column_def)
next
  case (Some s)
  obtain d xs where s: "s = (d, xs)" by (cases s)
  have mem: "col \<in> set (columns t)"
    using Some by (force simp: columns_def dest: map_of_SomeD)
  have "map (\<lambda>(n, old). if n = col then (n, (d, fillna (median xs) xs)) else (n, old)) t =
        map (\<lambda>(n, (d, xs)). (n, (d, if n = col then fillna (median xs) xs else xs))) t"
  proof (rule map_cong[OF refl])
    fix x assume x: "x \<in> set t"
    obtain n d' ys where xe: "x = (n, (d', ys))" by (cases x) auto
    show "(\<lambda>(n, old). if n = col then (n, (d, fillna (median xs) xs)) else (n, old)) x =
          (\<lambda>(n, (d, xs)). (n, (d, if n = col then fillna (median xs) xs else xs))) x"
    proof (cases "n = col")
      case True
      have "map_of t n = Some (d', ys)"
        using assms x xe by (simp add: columns_def)
      with True Some s have "d' = d" "ys = xs" by auto
      with True xe show ?thesis by simp
    next
      case False
      with xe show ?thesis by simp
    qed
  qed
  with Some s mem show ?thesis by (simp add: fill_column_def setcol_def)
qed

lemma columns_fill_map:
  "columns (map (\<lambda>(n, (d, xs)). (n, (d, f n d xs))) t) = columns t"
  by (auto simp: columns_def)

lemma fold_fill_column:
  assumes "distinct (columns t)" "distinct cs"
  shows "fold fill_column cs t =
           map (\<lambda>(n, (d, xs)). (n, (d, if n \<in> set cs then fillna (median xs) xs else xs))) t"
  using assms
proof (induction cs arbitrary: t)
  case Nil
  have "\<forall>x \<in> set t. (\<lambda>(n, (d, xs)). (n, (d, xs))) x = x" by auto
  then have "map (\<lambda>(n, (d, xs)). (n, (d, xs))) t = t" by (simp add: map_idI)
  then show ?case by simp
next
  case (Cons c cs)
  let ?t1 = "map (\<lambda>(n, (d, xs)). (n, (d, if n = c then fillna (median xs) xs else xs))) t"
  have f: "fill_column c t = ?t1" using Cons.prems(1) by (rule fill_column_map)
  have d1: "distinct (columns ?t1)"
    using Cons.prems(1) by (simp add: columns_fill_map)
  have "fold fill_column (c # cs) t = fold fill_column cs ?t1" by (simp add: f)
  also have "\<dots> = map (\<lambda>(n, (d, xs)). (n, (d, if n \<in> set cs then fillna (median xs) xs else xs))) ?t1"
    using Cons.IH[OF d1] Cons.prems(2) by simp
  also have "\<dots> = map (\<lambda>(n, (d, xs)). (n, (d, if n \<in> set (c # cs) then fillna (median xs) xs else xs))) t"
    using Cons.prems(2) by (auto simp: comp_def)
  finally show ?case .
qed

lemma fill_numeric_map:
  assumes "distinct (columns t)"
  shows "fill_numeric t =
           map (\<lambda>(n, (d, xs)). (n, (d, if d = Number then fillna (median xs) xs else xs))) t"
proof -
  have dn: "distinct (numeric_columns t)"
    using assms by (simp add: numeric_columns_def columns_def distinct_map_filter)
  have "fill_numeric t =
      map (\<lambda>(n, (d, xs)). (n, (d, if n \<in> set (numeric_columns t) then fillna (median xs) xs else xs))) t"
    unfolding fill_numeric_def using assms dn by (rule fold_fill_column)
  also have "\<dots> = map (\<lambda>(n, (d, xs)). (n, (d, if d = Number then fillna (median xs) xs else xs))) t"
  proof (rule map_cong[OF refl])
    fix x assume x: "x \<in> set t"
    obtain n d ys where xe: "x = (n, (d, ys))" by (cases x) auto
    have "n \<in> set (numeric_columns t) \<longleftrightarrow> d = Number"
    proof
      assume "n \<in> set (numeric_columns t)"
      then obtain ys' where "(n, (Number, ys')) \<in> set t"
        by (auto simp: numeric_columns_def)
      moreover have "map_of t n = Some (d, ys)" using assms x xe by (simp add: columns_def)
      ultimately show "d = Number" using assms by (simp add: columns_def)
    next
      assume "d = Number"
      with x xe show "n \<in> set (numeric_columns t)"
        by (force simp: numeric_columns_def)
    qed
    with xe show "(\<lambda>(n, (d, xs)). (n, (d, if n \<in> set (numeric_columns t) then fillna (median xs) xs else xs))) x =
          (\<lambda>(n, (d, xs)). (n, (d, if d = Number then fillna (median xs) xs else xs))) x"
      by simp
  qed
  finally show ?thesis .
qed

lemma length_fillna: "length (fillna v xs) = length xs"
  by (simp add: fillna_def split: option.split)

lemma nth_fillna:
  "i < length xs \<Longrightarrow>
   fillna v xs ! i = (if xs ! i = Null then (case v of None \<Rightarrow> Null | Some m \<Rightarrow> Num m) else xs ! i)"
  by (simp add: fillna_def split: option.split)

text \<open>
  C10. On a table whose column labels are distinct, median imputation keeps the labels,
  the dtypes, the number of columns and the number of rows. Every cell stays as it is,
  except a missing cell of a numeric column: that one becomes the median of the
  column's values that are not missing (and stays missing when the column has no value
  at all).
\<close>

theorem fill_numeric_only_nulls:
  assumes "distinct (columns t)"
  shows "columns (fill_numeric t) = columns t \<and> nrows (fill_numeric t) = nrows t \<and>
         length (fill_numeric t) = length t \<and>
         (\<forall>j < length t. \<exists>n d xs ys.
            t ! j = (n, (d, xs)) \<and> fill_numeric t ! j = (n, (d, ys)) \<and>
            length ys = length xs \<and>
            (\<forall>i < length xs.
               ys ! i =
                 (if d = Number \<and> xs ! i = Null
                  then (case median xs of None \<Rightarrow> Null | Some m \<Rightarrow> Num m)
                  else xs ! i)))"
proof -
  let ?F = "\<lambda>(n, (d, xs)). (n, (d, if d = Number then fillna (median xs) xs else xs))"
  have m: "fill_numeric t = map ?F t" using assms by (rule fill_numeric_map)
  have c: "columns (fill_numeric t) = columns t"
    unfolding m by (auto simp: columns_def)
  have r: "nrows (fill_numeric t) = nrows t"
    unfolding m by (cases t) (auto simp: nrows_def length_fillna)
  have cells: "\<exists>n d xs ys.
            t ! j = (n, (d, xs)) \<and> fill_numeric t ! j = (n, (d, ys)) \<and>
            length ys = length xs \<and>
            (\<forall>i < length xs.
               ys ! i =
                 (if d = Number \<and> xs ! i = Null
                  then (case median xs of None \<Rightarrow> Null | Some m \<Rightarrow> Num m)
                  else xs ! i))" if j: "j < length t" for j
  proof -
    obtain n d xs where e: "t ! j = (n, (d, xs))" by (cases "t ! j") auto
    have "fill_numeric t ! j = (n, (d, if d = Number then fillna (median xs) xs else xs))"
      using j e by (simp add: m)
    with e show ?thesis
      by (auto simp: length_fillna nth_fillna)
  qed
  show ?thesis using c r cells by (simp add: m)
qed

theorem fill_numeric_only_nulls_witness:
  "distinct (columns gappy_flights) \<and>
   fill_numeric gappy_flights =
     [(''AIRLINE'', (Object, [Str ''AA'', Null, Str ''DL'', Str ''UA''])),
      (''DISTANCE'', (Number, [Num 300, Num 200, Num 100, Num 200])),
      (''ARRIVAL_DELAY'', (Number, [Num 7, Num (-2), Num 4, Num 4])),
      (''ELAPSED_TIME'', (Number, [Null, Null, Null, Null]))]"
proof -
  have d: "distinct (columns gappy_flights)"
    by (simp add: columns_def gappy_flights_def)
  have m: "median [Num 300, Null, Num 100, Num 200] = Some 200"
       "median [Num 7, Num (-2), Null, Num 4] = Some 4"
       "median [Null, Null, Null, Null] = None"
    by (simp_all add: median_def numbers_def List.map_filter_def)
  have f: "fill_numeric gappy_flights =
     [(''AIRLINE'', (Object, [Str ''AA'', Null, Str ''DL'', Str ''UA''])),
      (''DISTANCE'', (Number, [Num 300, Num 200, Num 100, Num 200])),
      (''ARRIVAL_DELAY'', (Number, [Num 7, Num (-2), Num 4, Num 4])),
      (''ELAPSED_TIME'', (Number, [Null, Null, Null, Null]))]"
    by (simp add: fill_numeric_def numeric_columns_def gappy_flights_def fill_column_def
        setcol_def columns_def fillna_def m)
  show ?thesis using fill_numeric_only_nulls[OF d] d f by simp
qed

section \<open>Delay capping\<close>

lemma numbers_Num: "numbers (map Num vs) = vs"
  by (induction vs) (simp_all add: numbers_def List.map_filter_def)

lemma mean_Num: "vs \<noteq> [] \<Longrightarrow> mean (map Num vs) = Some (sum_list vs / real (length vs))"
  by (simp add: mean_def numbers_Num)

lemma std_Num:
  "2 \<le> length vs \<Longrightarrow>
   std (map Num vs) =
     Some (sqrt (sum_list (map (\<lambda>v. (sum_list vs / real (length vs) - v)\<^sup>2) vs)
                 / (real (length vs) - 1)))"
  by (simp add: std_def numbers_Num Let_def)

lemma delay_cap_few: "length vs < 2 \<Longrightarrow> delay_cap (map Num vs) = None"
  by (simp add: delay_cap_def std_def numbers_Num Let_def split: option.split)

lemma delay_cap_Num:
  assumes "2 \<le> length vs"
  shows "delay_cap (map Num vs) =
     Some (sum_list vs / real (length vs)
           + 3 * sqrt (sum_list (map (\<lambda>v. (sum_list vs / real (length vs) - v)\<^sup>2) vs)
                       / (real (length vs) - 1)))"
proof -
  have "vs \<noteq> []" using assms by auto
  then show ?thesis using assms by (simp add: delay_cap_def mean_Num std_Num)
qed

lemma capped_Num: "capped cap (Num v) = Num (case cap of None \<Rightarrow> v | Some c \<Rightarrow> min v c)"
  by (simp add: capped_def min_def split: option.split)

lemma cap_series_Num:
  "cap_series (map Num vs) =
     map (\<lambda>v. Num (case delay_cap (map Num vs) of None \<Rightarrow> v | Some c \<Rightarrow> min v c)) vs"
  by (simp add: cap_series_def capped_Num comp_def)

lemma capped_le:
  assumes "number_of x = Some v"
  shows "\<exists>a. capped cap x = Num a \<and> a \<le> v"
  using assms by (auto simp: capped_def split: option.split)

lemma nth_cap_series: "i < length xs \<Longrightarrow> cap_series xs ! i = capped (delay_cap xs) (xs ! i)"
  by (simp add: cap_series_def)

lemma length_cap_series: "length (cap_series xs) = length xs"
  by (simp add: cap_series_def)

lemma sqrt_16: "sqrt 16 = 4"
  using real_sqrt_abs[of 4] by simp

lemma sqrt_169_16: "sqrt (169 / 16) = 13 / 4"
  using real_sqrt_abs[of "13 / 4"] by (simp add: power2_eq_square)

lemma delay_cap_outlier: "delay_cap (map Num outlier_delays) = Some 13"
proof -
  have l: "2 \<le> length outlier_delays" by (simp add: outlier_delays_def)
  show ?thesis
    unfolding delay_cap_Num[OF l] by (simp add: outlier_delays_def sqrt_16)
qed

lemma cap_series_outlier: "cap_series (map Num outlier_delays) = map Num outlier_delays_capped"
  unfolding cap_series_Num delay_cap_outlier
  by (simp add: outlier_delays_def outlier_delays_capped_def)

lemma delay_cap_outlier_capped: "delay_cap (map Num outlier_delays_capped) = Some (169 / 16)"
proof -
  have l: "2 \<le> length outlier_delays_capped" by (simp add: outlier_delays_capped_def)
  show ?thesis
    unfolding delay_cap_Num[OF l]
    by (simp add: outlier_delays_capped_def power2_eq_square sqrt_169_16)
qed

lemma cap_series_outlier_twice:
  "cap_series (cap_series (map Num outlier_delays)) ! 15 = Num (169 / 16)"
  unfolding cap_series_outlier 
  unfolding cap_series_Num delay_cap_outlier_capped
  by (simp add: outlier_delays_capped_def)

lemma spec_cap_outlier: "spec_cap outlier_delays = 1 + 3 * sqrt 15"
  by (simp add: spec_cap_def spec_population_std_def outlier_delays_def)

text \<open>
  C3 (amended). For a delay column without missing values, the cap is computed once
  from the whole column as the mean plus three times the sample standard deviation
  (the squared deviations are divided by the count less one). With at least two rows
  every capped value is the minimum of the delay and the cap, so it is at most the
  delay and equal to it where the delay is at most the cap. With fewer than two rows
  there is no cap and every value stays as it is.
\<close>

theorem capping_sample_std:
  "(2 \<le> length vs \<longrightarrow>
      (\<exists>cap. delay_cap (map Num vs) = Some cap \<and>
         cap = sum_list vs / real (length vs)
               + 3 * sqrt (sum_list (map (\<lambda>v. (sum_list vs / real (length vs) - v)\<^sup>2) vs)
                           / (real (length vs) - 1)) \<and>
         cap_series (map Num vs) = map (\<lambda>v. Num (min v cap)) vs \<and>
         (\<forall>v \<in> set vs. min v cap \<le> v \<and> (v \<le> cap \<longrightarrow> min v cap = v)))) \<and>
   (length vs < 2 \<longrightarrow> cap_series (map Num vs) = map Num vs)"
proof -
  have few: "cap_series (map Num vs) = map Num vs" if "length vs < 2"
    unfolding cap_series_Num delay_cap_few[OF that] by simp
  have many: "\<exists>cap. delay_cap (map Num vs) = Some cap \<and>
         cap = sum_list vs / real (length vs)
               + 3 * sqrt (sum_list (map (\<lambda>v. (sum_list vs / real (length vs) - v)\<^sup>2) vs)
                           / (real (length vs) - 1)) \<and>
         cap_series (map Num vs) = map (\<lambda>v. Num (min v cap)) vs \<and>
         (\<forall>v \<in> set vs. min v cap \<le> v \<and> (v \<le> cap \<longrightarrow> min v cap = v))" if l: "2 \<le> length vs"
  proof -
    let ?cap = "sum_list vs / real (length vs)
               + 3 * sqrt (sum_list (map (\<lambda>v. (sum_list vs / real (length vs) - v)\<^sup>2) vs)
                           / (real (length vs) - 1))"
    have c: "delay_cap (map Num vs) = Some ?cap" by (rule delay_cap_Num[OF l])
    have s: "cap_series (map Num vs) = map (\<lambda>v. Num (min v ?cap)) vs"
      unfolding cap_series_Num c by simp
    show ?thesis using c s by auto
  qed
  show ?thesis using few many by blast
qed

theorem capping_sample_std_witness:
  "2 \<le> length outlier_delays \<and> delay_cap (map Num outlier_delays) = Some 13 \<and>
   cap_series (map Num outlier_delays) = map Num outlier_delays_capped \<and>
   (16::real) \<in> set outlier_delays \<and> min (16::real) 13 \<le> 16 \<and>
   (0::real) \<in> set outlier_delays \<and> (0::real) \<le> 13 \<and> min (0::real) 13 = 0"
proof -
  have l: "2 \<le> length outlier_delays" by (simp add: outlier_delays_def)
  have m: "(16::real) \<in> set outlier_delays" "(0::real) \<in> set outlier_delays"
    by (simp_all add: outlier_delays_def)
  show ?thesis
    using capping_sample_std[of outlier_delays] l m delay_cap_outlier cap_series_outlier
    by simp
qed

text \<open>
  C3 as stated fails on fifteen delays of 0 and one of 16: the code caps the last row
  at 13, the mean 1 plus three times the sample deviation 4, while the minimum of the
  delay and the cap of the population deviation is below 13.
\<close>

theorem capping_population_std_counterexample:
  "cap_series (map Num outlier_delays) ! 15 = Num 13 \<and>
   outlier_delays ! 15 = 16 \<and>
   min (outlier_delays ! 15) (spec_cap outlier_delays) < 13"
proof -
  have "sqrt 15 < sqrt 16" by (rule real_sqrt_less_mono) simp
  then have "sqrt 15 < 4" by (simp only: sqrt_16)
  then have "spec_cap outlier_delays < 13" by (simp add: spec_cap_outlier)
  moreover have "cap_series (map Num outlier_delays) ! 15 = Num 13"
    by (simp add: cap_series_outlier outlier_delays_capped_def)
  moreover have "outlier_delays ! 15 = 16" by (simp add: outlier_delays_def)
  ultimately show ?thesis by simp
qed

text \<open>
  C4 (amended). Capping twice, with the cap recomputed on the capped column, gives in
  every row a value that is at most the value of a single capping, which is at most
  the delay.
\<close>

theorem capping_twice_not_above:
  "i < length xs \<Longrightarrow> number_of (xs ! i) = Some v \<Longrightarrow>
   \<exists>a b. cap_series xs ! i = Num a \<and> cap_series (cap_series xs) ! i = Num b \<and>
         b \<le> a \<and> a \<le> v"
proof -
  assume i: "i < length xs" and v: "number_of (xs ! i) = Some v"
  obtain a where a: "capped (delay_cap xs) (xs ! i) = Num a" "a \<le> v"
    using capped_le[OF v] by blast
  have once: "cap_series xs ! i = Num a" using i a by (simp add: nth_cap_series)
  have "number_of (cap_series xs ! i) = Some a" by (simp add: once)
  then obtain b where b: "capped (delay_cap (cap_series xs)) (cap_series xs ! i) = Num b" "b \<le> a"
    using capped_le by blast
  have "cap_series (cap_series xs) ! i = Num b"
    using i b by (simp add: nth_cap_series length_cap_series)
  with once a b show ?thesis by blast
qed

theorem capping_twice_not_above_witness:
  "(15::nat) < length (map Num outlier_delays) \<and>
   number_of (map Num outlier_delays ! 15) = Some 16 \<and>
   cap_series (map Num outlier_delays) ! 15 = Num 13 \<and>
   cap_series (cap_series (map Num outlier_delays)) ! 15 = Num (169 / 16) \<and>
   (169 / 16 :: real) \<le> 13 \<and> (13 :: real) \<le> 16"
proof -
  have i: "(15::nat) < length (map Num outlier_delays)" by (simp add: outlier_delays_def)
  have v: "number_of (map Num outlier_delays ! 15) = Some 16" by (simp add: outlier_delays_def)
  have o: "cap_series (map Num outlier_delays) ! 15 = Num 13"
    by (simp add: cap_series_outlier outlier_delays_capped_def)
  show ?thesis
    using capping_twice_not_above[OF i v] i v o cap_series_outlier_twice by simp
qed

text \<open>
  C4 as stated fails on the same column: a single capping gives 13 in the last row,
  capping again gives 169/16, which is not 13 or more.
\<close>

theorem capping_twice_counterexample:
  "cap_series (map Num outlier_delays) ! 15 = Num 13 \<and>
   cap_series (cap_series (map Num outlier_delays)) ! 15 = Num (169 / 16) \<and>
   \<not> ((169 / 16 :: real) \<ge> 13)"
proof -
  have "cap_series (map Num outlier_delays) ! 15 = Num 13"
    by (simp add: cap_series_outlier outlier_delays_capped_def)
  then show ?thesis using cap_series_outlier_twice by simp
qed

section \<open>The integrity cell drops duplicates\<close>

lemma first_occurrences:
  "distinct (map f (filter (\<lambda>i. f i \<notin> set (map f [0..<i])) [0..<n])) \<and>
   set (map f (filter (\<lambda>i. f i \<notin> set (map f [0..<i])) [0..<n])) = f ` {0..<n}"
proof (induction n)
  case 0
  show ?case by simp
next
  case (Suc n)
  have "{0..<Suc n} = insert n {0..<n}" by auto
  with Suc show ?case by auto
qed

lemma records_drop_duplicates:
  "records (drop_duplicates t) =
     map (record_of t) (filter (\<lambda>i. record_of t i \<notin> set (map (record_of t) [0..<i])) [0..<nrows t])"
  unfolding drop_duplicates_def
  by (rule records_select_rows) (simp add: nrows_Nil)

lemma distinct_records_drop_duplicates: "distinct (records (drop_duplicates t))"
  unfolding records_drop_duplicates using first_occurrences[of "record_of t" "nrows t"] by blast

lemma set_records_drop_duplicates: "set (records (drop_duplicates t)) = set (records t)"
  unfolding records_drop_duplicates using first_occurrences[of "record_of t" "nrows t"]
  by (simp add: records_def)

lemma select_all_rows:
  assumes "aligned t"
  shows "select_rows [0..<nrows t] t = t"
proof -
  have "\<forall>x \<in> set t. (\<lambda>(n, (d, xs)). (n, (d, map (\<lambda>i. xs ! i) [0..<nrows t]))) x = x"
  proof
    fix x assume x: "x \<in> set t"
    obtain n d xs where e: "x = (n, (d, xs))" by (cases x) auto
    have "length xs = nrows t" using assms x e by (auto simp: aligned_def list_all_iff)
    then have "map (\<lambda>i. xs ! i) [0..<nrows t] = xs" by (metis map_nth)
    with e show "(\<lambda>(n, (d, xs)). (n, (d, map (\<lambda>i. xs ! i) [0..<nrows t]))) x = x" by simp
  qed
  then show ?thesis unfolding select_rows_def by (simp add: map_idI)
qed

lemma drop_duplicates_id_iff:
  assumes "aligned t"
  shows "drop_duplicates t = t \<longleftrightarrow> distinct (records t)"
proof
  assume "drop_duplicates t = t"
  then show "distinct (records t)" using distinct_records_drop_duplicates[of t] by simp
next
  assume d: "distinct (records t)"
  have "\<forall>i \<in> set [0..<nrows t]. record_of t i \<notin> set (map (record_of t) [0..<i])"
  proof
    fix i assume i: "i \<in> set [0..<nrows t]"
    show "record_of t i \<notin> set (map (record_of t) [0..<i])"
    proof
      assume "record_of t i \<in> set (map (record_of t) [0..<i])"
      then obtain j where j: "j < i" "record_of t j = record_of t i" by auto
      have "records t ! j = records t ! i" using i j by (simp add: records_def)
      moreover have "j < length (records t)" "i < length (records t)"
        using i j by (simp_all add: records_def)
      ultimately have "j = i" using d by (simp add: nth_eq_iff_index_eq)
      with j show False by simp
    qed
  qed
  then have "filter (\<lambda>i. record_of t i \<notin> set (map (record_of t) [0..<i])) [0..<nrows t] = [0..<nrows t]"
    by (simp only: filter_id_conv)
  then show "drop_duplicates t = t"
    unfolding drop_duplicates_def using select_all_rows[OF assms] by simp
qed

lemma count_below_filter:
  "count_below k xs = Inr n \<Longrightarrow> n = length (filter (\<lambda>c. py_lt c k = Inr True) xs)"
proof (induction xs arbitrary: n)
  case Nil
  then show ?case by simp
next
  case (Cons x xs)
  obtain b where b: "py_lt x k = Inr b"
    using Cons.prems by (auto split: sum.splits)
  obtain m where m: "count_below k xs = Inr m"
    using Cons.prems b by (auto split: sum.splits)
  have n: "n = (if b then Suc m else m)" using Cons.prems b m by simp
  have "m = length (filter (\<lambda>c. py_lt c k = Inr True) xs)" using Cons.IH[OF m] .
  with n b show ?case by simp
qed

lemma py_lt_zero: "(py_lt c 0 = Inr True) = (case c of Num r \<Rightarrow> r < 0 | _ \<Rightarrow> False)"
  by (cases c) auto

lemma count_below_zero:
  assumes "count_below 0 xs = Inr n"
  shows "n = length (filter (\<lambda>c. case c of Num r \<Rightarrow> r < 0 | _ \<Rightarrow> False) xs)"
  using count_below_filter[OF assms] by (simp only: py_lt_zero)

lemma integrity_cell_Inr:
  assumes "integrity_cell t = Inr (t', a, b)"
  shows "t' = drop_duplicates t"
    and "\<exists>d xs. getcol t' ''DISTANCE'' = Inr (d, xs) \<and> count_below 0 xs = Inr a"
    and "\<exists>d xs. getcol t' ''DEPARTURE_DELAY'' = Inr (d, xs) \<and> count_below 0 xs = Inr b"
  using assms
  by (simp_all add: integrity_cell_def Let_def split: sum.splits prod.splits)

text \<open>
  C2 (amended). The integrity cell binds the table to the result of dropping
  duplicates: the columns stay, of the rows that are equal in every column only the
  first stays, in the order of the table, so no two remaining rows are equal and no
  distinct row is lost. The table is the same afterwards exactly when it had no
  repeated row. The two printed counts are the numbers of negative distances and of
  negative departure delays among the remaining rows; the cell counts no duplicates.
\<close>

theorem integrity_cell_drops_duplicates:
  assumes "aligned t" "integrity_cell t = Inr (t', negative_distances, negative_delays)"
  shows "t' = drop_duplicates t \<and> columns t' = columns t \<and>
         distinct (records t') \<and> set (records t') = set (records t) \<and>
         records t' =
           map (record_of t)
             (filter (\<lambda>i. \<forall>j < i. record_of t j \<noteq> record_of t i) [0..<nrows t]) \<and>
         (t' = t \<longleftrightarrow> distinct (records t)) \<and>
         (\<exists>d xs. getcol t' ''DISTANCE'' = Inr (d, xs) \<and>
            negative_distances =
              length (filter (\<lambda>c. case c of Num r \<Rightarrow> r < 0 | _ \<Rightarrow> False) xs)) \<and>
         (\<exists>d xs. getcol t' ''DEPARTURE_DELAY'' = Inr (d, xs) \<and>
            negative_delays =
              length (filter (\<lambda>c. case c of Num r \<Rightarrow> r < 0 | _ \<Rightarrow> False) xs))"
proof (intro conjI)
  show t': "t' = drop_duplicates t" using integrity_cell_Inr(1)[OF assms(2)] .
  show "columns t' = columns t"
    unfolding t' drop_duplicates_def by (rule columns_select_rows)
  show "distinct (records t')" unfolding t' by (rule distinct_records_drop_duplicates)
  show "set (records t') = set (records t)" unfolding t' by (rule set_records_drop_duplicates)
  have idx: "(record_of t i \<notin> set (map (record_of t) [0..<i]))
           = (\<forall>j < i. record_of t j \<noteq> record_of t i)" for i
  proof
    assume a: "record_of t i \<notin> set (map (record_of t) [0..<i])"
    show "\<forall>j < i. record_of t j \<noteq> record_of t i"
    proof (intro allI impI)
      fix j assume "j < i"
      then have "record_of t j \<in> set (map (record_of t) [0..<i])" by simp
      with a show "record_of t j \<noteq> record_of t i" by metis
    qed
  next
    assume b: "\<forall>j < i. record_of t j \<noteq> record_of t i"
    show "record_of t i \<notin> set (map (record_of t) [0..<i])"
    proof
      assume "record_of t i \<in> set (map (record_of t) [0..<i])"
      then obtain j where "j < i" "record_of t j = record_of t i" by auto
      with b show False by blast
    qed
  qed
  show "records t' = map (record_of t)
             (filter (\<lambda>i. \<forall>j < i. record_of t j \<noteq> record_of t i) [0..<nrows t])"
    unfolding t' records_drop_duplicates by (simp only: idx)
  show "t' = t \<longleftrightarrow> distinct (records t)"
    unfolding t' by (rule drop_duplicates_id_iff[OF assms(1)])
  show "\<exists>d xs. getcol t' ''DISTANCE'' = Inr (d, xs) \<and>
            negative_distances =
              length (filter (\<lambda>c. case c of Num r \<Rightarrow> r < 0 | _ \<Rightarrow> False) xs)"
    using integrity_cell_Inr(2)[OF assms(2)] count_below_zero by blast
  show "\<exists>d xs. getcol t' ''DEPARTURE_DELAY'' = Inr (d, xs) \<and>
            negative_delays =
              length (filter (\<lambda>c. case c of Num r \<Rightarrow> r < 0 | _ \<Rightarrow> False) xs)"
    using integrity_cell_Inr(3)[OF assms(2)] count_below_zero by blast
qed

lemma integrity_cell_repeated:
  "integrity_cell repeated_flights = Inr (distinct_flights, 0, 1)"
  by (simp add: integrity_cell_def drop_duplicates_def select_rows_def record_of_def nrows_def
      repeated_flights_def distinct_flights_def getcol_def del: set_upt)

theorem integrity_cell_drops_duplicates_witness:
  "aligned repeated_flights \<and>
   integrity_cell repeated_flights = Inr (distinct_flights, 0, 1) \<and>
   distinct_flights = drop_duplicates repeated_flights \<and>
   distinct (records distinct_flights) \<and>
   \<not> distinct (records repeated_flights)"
proof -
  have a: "aligned repeated_flights"
    by (simp add: aligned_def repeated_flights_def nrows_def)
  have ne: "distinct_flights \<noteq> repeated_flights"
    by (simp add: repeated_flights_def distinct_flights_def)
  from integrity_cell_drops_duplicates[OF a integrity_cell_repeated]
  have "distinct_flights = drop_duplicates repeated_flights"
    and "distinct (records distinct_flights)"
    and "(distinct_flights = repeated_flights) = distinct (records repeated_flights)"
    by blast+
  with a ne integrity_cell_repeated show ?thesis by blast
qed

text \<open>
  C2 as stated fails on a table with a repeated row: the table goes in with three rows
  and is bound to a table of two rows afterwards.
\<close>

theorem integrity_cell_readonly_counterexample:
  "integrity_cell repeated_flights = Inr (distinct_flights, 0, 1) \<and>
   nrows repeated_flights = 3 \<and> nrows distinct_flights = 2 \<and>
   distinct_flights \<noteq> repeated_flights"
  using integrity_cell_repeated
  by (simp add: repeated_flights_def distinct_flights_def nrows_def)

section \<open>The weekend flag\<close>

lemma columns_scope_filter: "scope_filter t = Inr t1 \<Longrightarrow> columns t1 = columns t"
  by (auto simp: scope_filter_def columns_select_rows split: sum.splits prod.splits)

lemma prune_no_date:
  assumes "prune t = Inr t'"
  shows "''DATE'' \<notin> set (columns t')"
proof -
  have d: "''DATE'' \<in> set variables_to_remove" by (simp add: variables_to_remove_def)
  have "t' = filter (\<lambda>(n, s). n \<notin> set variables_to_remove) t"
    using assms by (simp add: prune_eq)
  then show ?thesis using d by (simp add: columns_filter)
qed

lemma columns_fill_column: "columns (fill_column col t) = columns t"
proof (cases "map_of t col")
  case None
  then show ?thesis by (simp add: fill_column_def)
next
  case (Some s)
  then have "col \<in> set (columns t)"
    by (force simp: columns_def dest: map_of_SomeD)
  with Some show ?thesis
    by (cases s) (simp add: fill_column_def columns_setcol_present)
qed

lemma columns_fold_fill_column: "columns (fold fill_column cs t) = columns t"
  by (induction cs arbitrary: t) (simp_all add: columns_fill_column)

lemma columns_fill_numeric: "columns (fill_numeric t) = columns t"
  by (simp add: fill_numeric_def columns_fold_fill_column)

lemma cleaning_cell_no_date:
  assumes "cleaning_cell t = Inr t'"
  shows "''DATE'' \<notin> set (columns t')"
proof -
  obtain t3 t4 where p: "prune t3 = Inr t4"
    and d: "\<exists>t5. dropna essential t4 = Inr t5 \<and> t' = fill_numeric t5"
    using assms by (auto simp: cleaning_cell_def split: sum.splits)
  from d obtain t5 where t5: "dropna essential t4 = Inr t5" "t' = fill_numeric t5" by blast
  have "columns t' = columns t4"
    using t5 records_dropna(2)[OF t5(1)] by (simp add: columns_fill_numeric)
  with prune_no_date[OF p] show ?thesis by simp
qed

lemma getcol_absent: "name \<notin> set (columns t) \<Longrightarrow> getcol t name = Inl (KeyError name)"
proof -
  assume "name \<notin> set (columns t)"
  then have "map_of t name = None" by (simp add: columns_def map_of_eq_None_iff)
  then show ?thesis by (simp add: getcol_def)
qed

lemma set_columns_setcol: "set (columns (setcol name s t)) = insert name (set (columns t))"
proof (cases "name \<in> set (columns t)")
  case True
  then show ?thesis by (simp add: columns_setcol_present insert_absorb)
next
  case False
  then show ?thesis by (simp add: setcol_def columns_def)
qed

lemma feature_cell_without_date:
  assumes "''DATE'' \<notin> set (columns t)"
  shows "\<exists>e. feature_cell t = Inl e"
    and "getcol t ''SCHEDULED_DEPARTURE'' = Inr (d, xs) \<Longrightarrow> apply_sched_hour xs = Inr hs \<Longrightarrow>
         feature_cell t = Inl (KeyError ''DATE'')"
proof -
  have g: "getcol (setcol ''SCHED_DEP_HOUR'' s t) ''DATE'' = Inl (KeyError ''DATE'')" for s
    using assms by (intro getcol_absent) (simp add: set_columns_setcol)
  show "\<exists>e. feature_cell t = Inl e"
    by (simp add: feature_cell_def g Let_def split: sum.splits prod.splits)
  show "getcol t ''SCHEDULED_DEPARTURE'' = Inr (d, xs) \<Longrightarrow> apply_sched_hour xs = Inr hs \<Longrightarrow>
         feature_cell t = Inl (KeyError ''DATE'')"
    by (simp add: feature_cell_def g Let_def)
qed

text \<open>
  C8 (the code falls short of the claim). The cleaning cell removes the DATE column
  that the feature cell reads: on every table that the cleaning cell accepts, the
  cleaned table has no DATE column and the feature cell fails; when the scheduled
  hours are computed, it fails with KeyError for DATE at the statement that would
  derive the weekend flag, so no flag is ever derived.
\<close>

theorem weekend_flag_never_derived:
  "cleaning_cell t = Inr t' \<Longrightarrow>
   ''DATE'' \<notin> set (columns t') \<and> (\<exists>e. feature_cell t' = Inl e) \<and>
   (\<forall>d xs hs. getcol t' ''SCHEDULED_DEPARTURE'' = Inr (d, xs) \<longrightarrow>
      apply_sched_hour xs = Inr hs \<longrightarrow> feature_cell t' = Inl (KeyError ''DATE''))"
  using cleaning_cell_no_date[of t t'] feature_cell_without_date[of t'] by blast

lemma scope_filter_winter: "scope_filter winter_flights = Inr winter_january"
  by (simp add: scope_filter_def getcol_def winter_flights_def winter_january_def
      select_rows_def)

lemma add_date_winter: "add_date winter_january = Inr winter_dated"
  by (simp add: add_date_def getcol_def setcol_def columns_def valid_date_def
      days_in_month_def winter_january_def winter_dated_def)

lemma cleaning_cell_winter: "cleaning_cell winter_flights = Inr winter_flights_cleaned"
  by (simp add: cleaning_cell_def scope_filter_winter add_date_winter prune_eq
      winter_dated_def variables_to_remove_def dropna_def essential_def columns_def nrows_def select_rows_def
      record_of_def complete_def fill_numeric_def numeric_columns_def fill_column_def
      setcol_def fillna_def median_def numbers_def List.map_filter_def
      winter_flights_cleaned_def)

lemma feature_cell_winter: "feature_cell winter_flights_cleaned = Inl (KeyError ''DATE'')"
  using sched_hour_value[of 930]
  by (simp add: feature_cell_def getcol_def winter_flights_cleaned_def setcol_def columns_def)

theorem weekend_flag_never_derived_witness:
  "cleaning_cell winter_flights = Inr winter_flights_cleaned \<and>
   ''DATE'' \<notin> set (columns winter_flights_cleaned) \<and>
   feature_cell winter_flights_cleaned = Inl (KeyError ''DATE'') \<and>
   clean_then_derive winter_flights = Inl (KeyError ''DATE'')"
  using weekend_flag_never_derived[OF cleaning_cell_winter] cleaning_cell_winter
    feature_cell_winter
  by (simp add: clean_then_derive_def)

end
